theory Spec2Isabelle
  imports Complex_Main "HOL-Library.Multiset"
begin

section \<open>Python strings\<close>

text \<open>
  A Python \<open>str\<close> is modelled as a \<open>string\<close>: a list of characters, each one of the 256
  code points U+0000 .. U+00FF. On these code points the classifications of CPython's
  Unicode database that the program uses (\<open>str.isspace\<close>, which also decides what
  \<open>str.split()\<close> and \<open>str.strip()\<close> treat as whitespace, \<open>str.isalpha\<close> and \<open>str.lower\<close>)
  are written out below.
\<close>

definition isspace :: "char \<Rightarrow> bool" where
  \<comment> \<open>U+0009..U+000D, U+001C..U+0020, U+0085, U+00A0\<close>
  "isspace c = (let n = (of_char c :: nat) in
     (9 \<le> n \<and> n \<le> 13) \<or> (28 \<le> n \<and> n \<le> 32) \<or> n = 133 \<or> n = 160)"

definition isalpha :: "char \<Rightarrow> bool" where
  \<comment> \<open>the letters (general category L*) below U+0100\<close>
  "isalpha c = (let n = (of_char c :: nat) in
     (65 \<le> n \<and> n \<le> 90) \<or> (97 \<le> n \<and> n \<le> 122) \<or> n = 170 \<or> n = 181 \<or> n = 186 \<or>
     (192 \<le> n \<and> n \<le> 214) \<or> (216 \<le> n \<and> n \<le> 246) \<or> (248 \<le> n \<and> n \<le> 255))"

definition lower_char :: "char \<Rightarrow> char" where
  \<comment> \<open>A..Z, U+00C0..U+00D6 and U+00D8..U+00DE have their lower case 32 code points up\<close>
  "lower_char c = (let n = (of_char c :: nat) in
     if (65 \<le> n \<and> n \<le> 90) \<or> (192 \<le> n \<and> n \<le> 214) \<or> (216 \<le> n \<and> n \<le> 222)
     then char_of (n + 32) else c)"

definition lower :: "string \<Rightarrow> string" where
  "lower s = map lower_char s"

definition strip :: "string \<Rightarrow> string" where
  \<comment> \<open>\<open>s.strip()\<close>: leading and trailing whitespace removed\<close>
  "strip s = rev (dropWhile isspace (rev (dropWhile isspace s)))"

text \<open>
  \<open>s.split()\<close> with no separator: the maximal runs of non-whitespace characters, left to
  right. \<open>cur\<close> is the run being read.
\<close>

fun split_ws_from :: "string \<Rightarrow> string \<Rightarrow> string list" where
  "split_ws_from cur [] = (if cur = [] then [] else [cur])"
| "split_ws_from cur (c # cs) =
     (if isspace c
      then (if cur = [] then split_ws_from [] cs else cur # split_ws_from [] cs)
      else split_ws_from (cur @ [c]) cs)"

definition split_ws :: "string \<Rightarrow> string list" where
  "split_ws s = split_ws_from [] s"

text \<open>
  \<open>s.split(sep)\<close>: the pieces between the occurrences of \<open>sep\<close>, found left to right
  without overlap; empty pieces are kept, so the result is never empty. Python raises
  \<open>ValueError\<close> for an empty separator; the program passes the constants \<open>'.'\<close> and
  \<open>"\n\n"\<close> only.
\<close>

fun split_sep_from :: "string \<Rightarrow> string \<Rightarrow> string \<Rightarrow> string list" where
  "split_sep_from sep cur [] = [cur]"
| "split_sep_from sep cur (c # cs) =
     (if sep \<noteq> [] \<and> take (length sep) (c # cs) = sep
      then cur # split_sep_from sep [] (drop (length sep) (c # cs))
      else split_sep_from sep (cur @ [c]) cs)"

definition str_split :: "string \<Rightarrow> string \<Rightarrow> string list" where
  "str_split s sep = split_sep_from sep [] s"

section \<open>Errors, division, rounding, \<open>max\<close>, \<open>sorted\<close>, \<open>dict\<close>\<close>

datatype error = ZeroDivisionError | ValueError

definition bindE :: "error + 'a \<Rightarrow> ('a \<Rightarrow> error + 'b) \<Rightarrow> error + 'b" where
  "bindE r f = (case r of Inl e \<Rightarrow> Inl e | Inr v \<Rightarrow> f v)"

definition py_truediv :: "int \<Rightarrow> int \<Rightarrow> error + real" where
  \<comment> \<open>\<open>a / b\<close> on Python ints\<close>
  "py_truediv a b = (if b = 0 then Inl ZeroDivisionError else Inr (real_of_int a / real_of_int b))"

text \<open>
  Floats are modelled as the real numbers they stand for, and \<open>/\<close> as exact division.
  \<open>round(x, ndigits)\<close> gives the multiple of \<open>10 ^ - ndigits\<close> nearest to \<open>x\<close>, the even
  one at a tie. CPython rounds the binary float, which is seldom the exact tie its decimal
  notation suggests, so the two can differ in the last digit there; the facts proved below
  use only that rounding keeps 0 and 1, and never crosses an integer bound.
\<close>

definition py_round :: "real \<Rightarrow> nat \<Rightarrow> real" where
  "py_round x ndigits =
     (let y = x * 10 ^ ndigits; f = \<lfloor>y\<rfloor>; d = y - of_int f;
          r = (if d < 1 / 2 then f else if 1 / 2 < d then f + 1 else if even f then f else f + 1)
      in of_int r / 10 ^ ndigits)"

text \<open>\<open>max(xs, key=f)\<close>: the first element with the largest key; \<open>ValueError\<close> on \<open>[]\<close>.\<close>

fun max_from :: "('a \<Rightarrow> int) \<Rightarrow> 'a \<Rightarrow> 'a list \<Rightarrow> 'a" where
  "max_from f best [] = best"
| "max_from f best (x # xs) = (if f best < f x then max_from f x xs else max_from f best xs)"

definition py_max :: "('a \<Rightarrow> int) \<Rightarrow> 'a list \<Rightarrow> error + 'a" where
  "py_max f xs = (case xs of [] \<Rightarrow> Inl ValueError | x # rest \<Rightarrow> Inr (max_from f x rest))"

text \<open>
  \<open>sorted(xs, key=f, reverse=True)\<close>: a stable sort by descending key (elements with equal
  keys keep their order in \<open>xs\<close>, also under \<open>reverse=True\<close>).
\<close>

definition sorted_reverse :: "('a \<Rightarrow> int) \<Rightarrow> 'a list \<Rightarrow> 'a list" where
  "sorted_reverse f xs = sort_key (\<lambda>x. - f x) xs"

text \<open>
  A \<open>dict\<close> keeps its keys in insertion order, which \<open>items()\<close> shows: it is a list of
  (key, value) pairs with distinct keys. Assigning to a key that is present replaces the
  value in place; a new key goes to the end.
\<close>

type_synonym ('k, 'v) dict = "('k \<times> 'v) list"

fun dict_get :: "('k, 'v) dict \<Rightarrow> 'k \<Rightarrow> 'v \<Rightarrow> 'v" where
  "dict_get [] k dflt = dflt"
| "dict_get ((k', v) # d) k dflt = (if k' = k then v else dict_get d k dflt)"

fun dict_set :: "('k, 'v) dict \<Rightarrow> 'k \<Rightarrow> 'v \<Rightarrow> ('k, 'v) dict" where
  "dict_set [] k v = [(k, v)]"
| "dict_set ((k', v') # d) k v = (if k' = k then (k, v) # d else (k', v') # dict_set d k v)"

section \<open>The descriptors\<close>

definition get_reading_ease_descriptor :: "real \<Rightarrow> string" where
  "get_reading_ease_descriptor reading_ease =
     (if reading_ease \<ge> 90 then ''Very Easy (Easily understood by an 11-year-old, simple language)''
      else if reading_ease \<ge> 80 then ''Easy (Conversational English, good for younger audiences)''
      else if reading_ease \<ge> 70 then ''Fairly Easy (Standard reading level, easily understood by teenagers)''
      else if reading_ease \<ge> 60 then ''Standard (Plain English, suitable for most readers)''
      else if reading_ease \<ge> 50 then ''Fairly Difficult (Somewhat challenging, college-level text)''
      else if reading_ease \<ge> 30 then ''Difficult (Best for academics and professionals, complex text)''
      else ''Very Difficult (Extremely complex, suitable for specialists)'')"

definition get_readability_descriptor :: "real \<Rightarrow> string" where
  "get_readability_descriptor fk_grade =
     (if fk_grade \<le> 5 then ''Very Easy (5th grade or below, easily understood by an 11-year-old)''
      else if fk_grade \<le> 8 then ''Easy (6th-8th grade, fairly easy to read)''
      else if fk_grade \<le> 10 then ''Standard (9th-10th grade, moderately challenging)''
      else if fk_grade \<le> 12 then ''Fairly Difficult (11th-12th grade, college level)''
      else if fk_grade \<le> 15 then ''Difficult (College level, requires advanced reading skills)''
      else ''Very Difficult (Postgraduate level, highly academic)'')"

section \<open>The metrics\<close>

text \<open>
  \<open>syllable_count\<close>, \<open>flesch_kincaid_grade\<close> and \<open>flesch_reading_ease\<close> are imported from
  the \<open>textstat\<close> library, which is not part of the program: they are parameters of the
  model. A syllable count is a natural number, the two scores are floats.
\<close>

record textstat =
  syllable_count :: "string \<Rightarrow> nat"
  flesch_kincaid_grade :: "string \<Rightarrow> real"
  flesch_reading_ease :: "string \<Rightarrow> real"

record metrics =
  letterCount :: int
  sentenceCount :: int
  wordCount :: int
  uniqueWordCount :: int
  totalSyllables :: int
  avgSyllablesPerWord :: real
  wordsThreeSyllables :: int
  percWordsThreeSyllables :: real
  longestSentence :: string
  paragraphCount :: int
  avgSpeakingTime :: real
  avgReadingTime :: real
  avgWritingTime :: real
  avgWordsPerSentence :: real
  avgWordsPerParagraph :: real
  avgSentencesPerParagraph :: real
  avgCharactersPerWord :: real
  wordsMoreThan4Syllables :: int
  percWordsMoreThan4Syllables :: real
  wordsMoreThan12Letters :: int
  percWordsMoreThan12Letters :: real
  topWords :: "(string \<times> int) list"
  fleschKincaid :: real
  readabilityDescriptor :: string
  readingEase :: real
  readingEaseDescriptor :: string
  readingTime :: real
  averageWordLength :: real

text \<open>The loop that fills \<open>word_frequency\<close>, the dict being the state.\<close>

fun count_words :: "(string, int) dict \<Rightarrow> string list \<Rightarrow> (string, int) dict" where
  "count_words word_frequency [] = word_frequency"
| "count_words word_frequency (w # ws) =
     (let wl = lower w
      in count_words (dict_set word_frequency wl (dict_get word_frequency wl 0 + 1)) ws)"

text \<open>
  \<open>calculate_text_metrics\<close>, statement by statement. A conditional expression
  \<open>e if c else 0\<close> evaluates \<open>e\<close> only when \<open>c\<close> holds; every \<open>/\<close> and the \<open>max\<close> can raise.
\<close>

definition calculate_text_metrics :: "textstat \<Rightarrow> string \<Rightarrow> error + metrics" where
  "calculate_text_metrics lib text =
    (let words = split_ws (strip text);
         sentences = map strip (filter (\<lambda>s. strip s \<noteq> []) (str_split text ''.''));
         letter_count = sum_list (map (\<lambda>c. if isalpha c then 1 else 0) text);
         word_count = int (length words);
         sentence_count = (if sentences \<noteq> [] then int (length sentences) else 1)
     in
     bindE (if word_count > 0
            then bindE (py_truediv letter_count word_count) (\<lambda>q. Inr (py_round q 1))
            else Inr 0) (\<lambda>avg_word_length.
     let unique_word_count = int (card (set (map lower words)));
         total_syllables = int (syllable_count lib text)
     in
     bindE (if word_count > 0
            then bindE (py_truediv total_syllables word_count) (\<lambda>q. Inr (py_round q 1))
            else Inr 0) (\<lambda>avg_syllables_per_word.
     let words_three_syllables =
           sum_list (map (\<lambda>w. 1) (filter (\<lambda>w. syllable_count lib w = 3) words))
     in
     bindE (if word_count > 0
            then bindE (py_truediv words_three_syllables word_count) (\<lambda>q. Inr (py_round (q * 100) 1))
            else Inr 0) (\<lambda>perc_words_three_syllables.
     bindE (if sentences \<noteq> []
            then py_max (\<lambda>s. int (length (split_ws s))) sentences
            else Inr []) (\<lambda>longest_sentence.
     let paragraphs = filter (\<lambda>p. strip p \<noteq> []) (str_split text ''\<newline>\<newline>'');
         paragraph_count = (if paragraphs \<noteq> [] then int (length paragraphs) else 1)
     in
     bindE (if word_count > 0
            then bindE (py_truediv word_count 150) (\<lambda>q. Inr (py_round q 1))
            else Inr 0) (\<lambda>avg_speaking_time.
     bindE (if word_count > 0
            then bindE (py_truediv word_count 200) (\<lambda>q. Inr (py_round q 1))
            else Inr 0) (\<lambda>avg_reading_time.
     bindE (if word_count > 0
            then bindE (py_truediv word_count 40) (\<lambda>q. Inr (py_round q 1))
            else Inr 0) (\<lambda>avg_writing_time.
     bindE (if sentence_count > 0
            then bindE (py_truediv word_count sentence_count) (\<lambda>q. Inr (py_round q 1))
            else Inr 0) (\<lambda>avg_words_per_sentence.
     bindE (if paragraph_count > 0
            then bindE (py_truediv word_count paragraph_count) (\<lambda>q. Inr (py_round q 1))
            else Inr 0) (\<lambda>avg_words_per_paragraph.
     bindE (if paragraph_count > 0
            then bindE (py_truediv sentence_count paragraph_count) (\<lambda>q. Inr (py_round q 1))
            else Inr 0) (\<lambda>avg_sentences_per_paragraph.
     bindE (if word_count > 0
            then bindE (py_truediv letter_count word_count) (\<lambda>q. Inr (py_round q 1))
            else Inr 0) (\<lambda>avg_characters_per_word.
     let words_more_than_4_syllables =
           sum_list (map (\<lambda>w. 1) (filter (\<lambda>w. syllable_count lib w > 4) words))
     in
     bindE (if word_count > 0
            then bindE (py_truediv words_more_than_4_syllables word_count)
                   (\<lambda>q. Inr (py_round (q * 100) 1))
            else Inr 0) (\<lambda>perc_words_more_than_4_syllables.
     let words_more_than_12_letters =
           sum_list (map (\<lambda>w. 1) (filter (\<lambda>w. length w > 12) words))
     in
     bindE (if word_count > 0
            then bindE (py_truediv words_more_than_12_letters word_count)
                   (\<lambda>q. Inr (py_round (q * 100) 1))
            else Inr 0) (\<lambda>perc_words_more_than_12_letters.
     let word_frequency = count_words [] words;
         top_words = take 5 (sorted_reverse snd word_frequency);
         flesch_kincaid = flesch_kincaid_grade lib text;
         reading_ease = flesch_reading_ease lib text
     in
     bindE (py_truediv word_count 200) (\<lambda>q.
     let reading_time_minutes = py_round q 2
     in
     Inr \<lparr> letterCount = letter_count,
           sentenceCount = sentence_count,
           wordCount = word_count,
           uniqueWordCount = unique_word_count,
           totalSyllables = total_syllables,
           avgSyllablesPerWord = avg_syllables_per_word,
           wordsThreeSyllables = words_three_syllables,
           percWordsThreeSyllables = perc_words_three_syllables,
           longestSentence = longest_sentence,
           paragraphCount = paragraph_count,
           avgSpeakingTime = avg_speaking_time,
           avgReadingTime = avg_reading_time,
           avgWritingTime = avg_writing_time,
           avgWordsPerSentence = avg_words_per_sentence,
           avgWordsPerParagraph = avg_words_per_paragraph,
           avgSentencesPerParagraph = avg_sentences_per_paragraph,
           avgCharactersPerWord = avg_characters_per_word,
           wordsMoreThan4Syllables = words_more_than_4_syllables,
           percWordsMoreThan4Syllables = perc_words_more_than_4_syllables,
           wordsMoreThan12Letters = words_more_than_12_letters,
           percWordsMoreThan12Letters = perc_words_more_than_12_letters,
           topWords = top_words,
           fleschKincaid = flesch_kincaid,
           readabilityDescriptor = get_readability_descriptor flesch_kincaid,
           readingEase = reading_ease,
           readingEaseDescriptor = get_reading_ease_descriptor reading_ease,
           readingTime = reading_time_minutes,
           averageWordLength = avg_word_length \<rparr>)))))))))))))))"


subsection \<open>The values the function computes on its way, by name\<close>

definition words_of :: "string \<Rightarrow> string list" where
  "words_of text = split_ws (strip text)"

definition sentences_of :: "string \<Rightarrow> string list" where
  "sentences_of text = map strip (filter (\<lambda>s. strip s \<noteq> []) (str_split text ''.''))"

definition paragraphs_of :: "string \<Rightarrow> string list" where
  "paragraphs_of text = filter (\<lambda>p. strip p \<noteq> []) (str_split text ''\<newline>\<newline>'')"

definition ratio :: "int \<Rightarrow> int \<Rightarrow> real" where
  "ratio a b = real_of_int a / real_of_int b"

subsection \<open>Notions of the specification\<close>

text \<open>The pieces of a split, put together again with the separator between them.\<close>

fun join :: "char \<Rightarrow> string list \<Rightarrow> string" where
  "join d [] = []"
| "join d [p] = p"
| "join d (p # q # ps) = p @ d # join d (q # ps)"

text \<open>
  The distinct elements of a list in the order of their first occurrence, and the
  frequency table of a list of words: each distinct word with the number of its
  occurrences, in the order of first occurrence.
\<close>

definition first_occurrences :: "'a list \<Rightarrow> 'a list" where
  "first_occurrences xs = rev (remdups (rev xs))"

definition frequency_table :: "string list \<Rightarrow> (string \<times> int) list" where
  "frequency_table ws = map (\<lambda>w. (w, int (count_list ws w))) (first_occurrences ws)"

text \<open>The seven reading-ease bands and the six grade bands, easiest first.\<close>

definition reading_ease_labels :: "string list" where
  "reading_ease_labels =
     [''Very Easy (Easily understood by an 11-year-old, simple language)'',
      ''Easy (Conversational English, good for younger audiences)'',
      ''Fairly Easy (Standard reading level, easily understood by teenagers)'',
      ''Standard (Plain English, suitable for most readers)'',
      ''Fairly Difficult (Somewhat challenging, college-level text)'',
      ''Difficult (Best for academics and professionals, complex text)'',
      ''Very Difficult (Extremely complex, suitable for specialists)'']"

definition grade_labels :: "string list" where
  "grade_labels =
     [''Very Easy (5th grade or below, easily understood by an 11-year-old)'',
      ''Easy (6th-8th grade, fairly easy to read)'',
      ''Standard (9th-10th grade, moderately challenging)'',
      ''Fairly Difficult (11th-12th grade, college level)'',
      ''Difficult (College level, requires advanced reading skills)'',
      ''Very Difficult (Postgraduate level, highly academic)'']"

text \<open>
  A stand-in for the library, for evaluating the function at concrete inputs: a syllable
  is counted for every vowel letter, and both scores are constant.
\<close>

definition vowel_count :: "string \<Rightarrow> nat" where
  "vowel_count s = length (filter (\<lambda>c. c \<in> set ''aeiouyAEIOUY'') s)"

definition sample_textstat :: textstat where
  "sample_textstat =
     \<lparr> syllable_count = vowel_count,
       flesch_kincaid_grade = (\<lambda>s. 5),
       flesch_reading_ease = (\<lambda>s. 90) \<rparr>"

section \<open>Basic facts\<close>

lemma bindE_Inr: "bindE (Inr v) f = f v"
  by (simp add: bindE_def)

lemma guarded_ratio:
  assumes "c \<Longrightarrow> b \<noteq> 0"
  shows "(if c then bindE (py_truediv a b) (\<lambda>q. Inr (g q)) else Inr 0)
         = Inr (if c then g (ratio a b) else 0)"
  using assms by (simp add: py_truediv_def bindE_def ratio_def)

lemma guarded_max:
  "(if xs \<noteq> [] then py_max f xs else Inr [])
   = Inr (if xs \<noteq> [] then max_from f (hd xs) (tl xs) else [])"
  by (cases xs) (simp_all add: py_max_def)

lemma truediv_200: "py_truediv a 200 = Inr (ratio a 200)"
  by (simp add: py_truediv_def ratio_def)

text \<open>
  No division and no \<open>max\<close> of the function raises: each is guarded by its conditional
  expression, or divides by a constant. The function returns this record.
\<close>

lemma calculate_text_metrics_eq:
  "calculate_text_metrics lib text =
     (let words = words_of text;
          sentences = sentences_of text;
          paragraphs = paragraphs_of text;
          lc = sum_list (map (\<lambda>c. if isalpha c then 1 else 0) text);
          wc = int (length words);
          sc = (if sentences \<noteq> [] then int (length sentences) else 1);
          pc = (if paragraphs \<noteq> [] then int (length paragraphs) else 1);
          syl = int (syllable_count lib text);
          w3 = sum_list (map (\<lambda>w. 1) (filter (\<lambda>w. syllable_count lib w = 3) words));
          w4 = sum_list (map (\<lambda>w. 1) (filter (\<lambda>w. syllable_count lib w > 4) words));
          w12 = sum_list (map (\<lambda>w. 1) (filter (\<lambda>w. length w > 12) words))
      in Inr \<lparr>
        letterCount = lc,
        sentenceCount = sc,
        wordCount = wc,
        uniqueWordCount = int (card (set (map lower words))),
        totalSyllables = syl,
        avgSyllablesPerWord = (if 0 < wc then py_round (ratio syl wc) 1 else 0),
        wordsThreeSyllables = w3,
        percWordsThreeSyllables = (if 0 < wc then py_round (ratio w3 wc * 100) 1 else 0),
        longestSentence =
          (if sentences \<noteq> []
           then max_from (\<lambda>s. int (length (split_ws s))) (hd sentences) (tl sentences) else []),
        paragraphCount = pc,
        avgSpeakingTime = (if 0 < wc then py_round (ratio wc 150) 1 else 0),
        avgReadingTime = (if 0 < wc then py_round (ratio wc 200) 1 else 0),
        avgWritingTime = (if 0 < wc then py_round (ratio wc 40) 1 else 0),
        avgWordsPerSentence = (if 0 < sc then py_round (ratio wc sc) 1 else 0),
        avgWordsPerParagraph = (if 0 < pc then py_round (ratio wc pc) 1 else 0),
        avgSentencesPerParagraph = (if 0 < pc then py_round (ratio sc pc) 1 else 0),
        avgCharactersPerWord = (if 0 < wc then py_round (ratio lc wc) 1 else 0),
        wordsMoreThan4Syllables = w4,
        percWordsMoreThan4Syllables = (if 0 < wc then py_round (ratio w4 wc * 100) 1 else 0),
        wordsMoreThan12Letters = w12,
        percWordsMoreThan12Letters = (if 0 < wc then py_round (ratio w12 wc * 100) 1 else 0),
        topWords = take 5 (sorted_reverse snd (count_words [] words)),
        fleschKincaid = flesch_kincaid_grade lib text,
        readabilityDescriptor = get_readability_descriptor (flesch_kincaid_grade lib text),
        readingEase = flesch_reading_ease lib text,
        readingEaseDescriptor = get_reading_ease_descriptor (flesch_reading_ease lib text),
        readingTime = py_round (ratio wc 200) 2,
        averageWordLength = (if 0 < wc then py_round (ratio lc wc) 1 else 0) \<rparr>)"
  unfolding calculate_text_metrics_def words_of_def sentences_of_def paragraphs_of_def Let_def
  apply (subst guarded_ratio, simp)+
  apply (subst guarded_max)
  apply (simp only: bindE_Inr truediv_200)
  done

section \<open>Rounding and counting\<close>

lemma py_round_nonneg: "0 \<le> x \<Longrightarrow> 0 \<le> py_round x n"
  by (auto simp: py_round_def Let_def)

lemma py_round_zero: "py_round 0 n = 0"
  by (simp add: py_round_def)

lemma py_round_le_int:
  assumes "x \<le> of_int k" shows "py_round x n \<le> of_int k"
proof -
  define y where "y = x * 10 ^ n"
  define K where "K = k * 10 ^ n"
  define f where "f = \<lfloor>y\<rfloor>"
  define r where "r = (if y - of_int f < 1 / 2 then f
                       else if 1 / 2 < y - of_int f then f + 1
                       else if even f then f else f + 1)"
  have y: "y \<le> of_int K" using assms by (simp add: y_def K_def)
  then have f: "f \<le> K" unfolding f_def by (simp add: floor_le_iff)
  have "r \<le> K"
  proof (cases "f = K")
    case True
    then have "y - of_int f \<le> 0" using y by simp
    then have "r = f" by (simp add: r_def)
    then show ?thesis using True by simp
  next
    case False
    then have "f + 1 \<le> K" using f by simp
    moreover have "r \<le> f + 1" by (simp add: r_def)
    ultimately show ?thesis by linarith
  qed
  then have "real_of_int r \<le> real_of_int K" by simp
  then have "real_of_int r \<le> real_of_int k * 10 ^ n" by (simp add: K_def)
  then have "real_of_int r / 10 ^ n \<le> real_of_int k" by (simp add: divide_le_eq)
  moreover have "py_round x n = real_of_int r / 10 ^ n"
    by (simp add: py_round_def Let_def r_def f_def y_def)
  ultimately show ?thesis by simp
qed


lemma py_round_one: "py_round 1 1 = 1"
  by (simp add: py_round_def)

lemma sum_ones_filter: "sum_list (map (\<lambda>w. 1) (filter P ws)) = int (length (filter P ws))"
  by (induction ws) simp_all

lemma sum_ones_filter_le: "sum_list (map (\<lambda>w. 1) (filter P ws)) \<le> int (length ws)"
  by (simp add: sum_ones_filter)


lemma perc_bounds:
  assumes "0 \<le> a" "a \<le> b" "0 < b"
  shows "0 \<le> py_round (ratio a b * 100) n" "py_round (ratio a b * 100) n \<le> 100"
proof -
  have "0 \<le> ratio a b" using assms by (simp add: ratio_def)
  then show "0 \<le> py_round (ratio a b * 100) n" by (simp add: py_round_nonneg)
  have "ratio a b \<le> 1" using assms by (simp add: ratio_def)
  then have "ratio a b * 100 \<le> of_int 100" by simp
  then have "py_round (ratio a b * 100) n \<le> of_int 100" by (rule py_round_le_int)
  then show "py_round (ratio a b * 100) n \<le> 100" by simp
qed


section \<open>Whitespace, words, sentences and paragraphs\<close>

lemma strip_Nil_iff: "strip s = [] \<longleftrightarrow> list_all isspace s"
proof
  assume "list_all isspace s"
  then show "strip s = []"
    by (auto simp: strip_def list_all_iff dest: set_dropWhileD)
next
  assume a: "strip s = []"
  show "list_all isspace s"
  proof (rule ccontr)
    assume "\<not> list_all isspace s"
    then have ne: "dropWhile isspace s \<noteq> []" by (simp add: list_all_iff)
    then have "\<not> isspace (hd (dropWhile isspace s))" by (rule hd_dropWhile)
    moreover have "hd (dropWhile isspace s) \<in> set (dropWhile isspace s)"
      using ne by (rule hd_in_set)
    moreover have "\<forall>x\<in>set (dropWhile isspace s). isspace x"
      using a by (simp add: strip_def)
    ultimately show False by blast
  qed
qed

lemma split_ws_from_spaces: "list_all isspace s \<Longrightarrow> split_ws_from [] s = []"
  by (induction s) simp_all

lemma words_of_spaces: "list_all isspace s \<Longrightarrow> words_of s = []"
  by (simp add: words_of_def split_ws_def iffD2[OF strip_Nil_iff])

lemma split_sep_from_chars:
  "p \<in> set (split_sep_from sep cur s) \<Longrightarrow> set p \<subseteq> set cur \<union> set s"
proof (induction sep cur s arbitrary: p rule: split_sep_from.induct)
  case (1 sep cur)
  then show ?case by simp
next
  case (2 sep cur c cs)
  show ?case
  proof (cases "sep \<noteq> [] \<and> take (length sep) (c # cs) = sep")
    case True
    with "2.prems" have "p = cur \<or> p \<in> set (split_sep_from sep [] (drop (length sep) (c # cs)))"
      by simp
    then show ?thesis
    proof
      assume "p = cur" then show ?thesis by auto
    next
      assume "p \<in> set (split_sep_from sep [] (drop (length sep) (c # cs)))"
      then have "set p \<subseteq> set [] \<union> set (drop (length sep) (c # cs))"
        using "2.IH"(1)[OF True] by blast
      moreover have "set (drop (length sep) (c # cs)) \<subseteq> set (c # cs)"
        by (rule set_drop_subset)
      ultimately show ?thesis by auto
    qed
  next
    case False
    with "2.prems" have "p \<in> set (split_sep_from sep (cur @ [c]) cs)" by auto
    then have "set p \<subseteq> set (cur @ [c]) \<union> set cs" using "2.IH"(2)[OF False] by blast
    then show ?thesis by auto
  qed
qed

lemma str_split_chars: "p \<in> set (str_split s sep) \<Longrightarrow> set p \<subseteq> set s"
  using split_sep_from_chars[of p sep "[]" s] by (simp add: str_split_def)

lemma paragraphs_of_spaces:
  assumes "list_all isspace s" shows "paragraphs_of s = []"
proof -
  have "strip p = []" if "p \<in> set (str_split s ''\<newline>\<newline>'')" for p
    using str_split_chars[OF that] assms by (auto simp: strip_Nil_iff list_all_iff)
  then show ?thesis by (simp add: paragraphs_of_def filter_empty_conv)
qed

lemma sentences_of_Nil_iff_pieces:
  "sentences_of s = [] \<longleftrightarrow> (\<forall>p\<in>set (str_split s ''.''). list_all isspace p)"
  by (simp add: sentences_of_def filter_empty_conv strip_Nil_iff)

lemma split_dot_step:
  "split_sep_from [d] cur (c # cs) =
     (if c = d then cur # split_sep_from [d] [] cs else split_sep_from [d] (cur @ [c]) cs)"
  by simp

lemma split_sep_from_not_Nil: "split_sep_from sep cur s \<noteq> []"
  by (induction sep cur s rule: split_sep_from.induct) simp_all

lemma join_Cons: "ps \<noteq> [] \<Longrightarrow> join d (p # ps) = p @ d # join d ps"
  by (cases ps) simp_all

lemma join_split: "join d (split_sep_from [d] cur s) = cur @ s"
proof (induction s arbitrary: cur)
  case Nil
  then show ?case by simp
next
  case (Cons c cs)
  show ?case
  proof (cases "c = d")
    case True
    have "join d (cur # split_sep_from [d] [] cs) = cur @ d # join d (split_sep_from [d] [] cs)"
      by (rule join_Cons[OF split_sep_from_not_Nil])
    also have "\<dots> = cur @ d # cs" by (simp only: Cons.IH append_Nil)
    finally show ?thesis using True by simp
  next
    case False
    have "join d (split_sep_from [d] (cur @ [c]) cs) = cur @ c # cs"
      by (simp only: Cons.IH) simp
    then show ?thesis using False by simp
  qed
qed

lemma split_pieces_no_sep:
  "d \<notin> set cur \<Longrightarrow> p \<in> set (split_sep_from [d] cur s) \<Longrightarrow> d \<notin> set p"
proof (induction s arbitrary: cur)
  case Nil
  then show ?case by simp
next
  case (Cons c cs)
  show ?case
  proof (cases "c = d")
    case True
    have "split_sep_from [d] cur (c # cs) = cur # split_sep_from [d] [] cs"
      using True by simp
    with Cons.prems(2) have "p = cur \<or> p \<in> set (split_sep_from [d] [] cs)"
      by (simp only: set_simps insert_iff)
    then show ?thesis
    proof
      assume "p = cur" then show ?thesis using Cons.prems(1) by simp
    next
      assume "p \<in> set (split_sep_from [d] [] cs)"
      then show ?thesis by (rule Cons.IH[rotated]) simp
    qed
  next
    case False
    have "split_sep_from [d] cur (c # cs) = split_sep_from [d] (cur @ [c]) cs"
      using False by simp
    with Cons.prems(2) have "p \<in> set (split_sep_from [d] (cur @ [c]) cs)"
      by (simp only:)
    moreover have "d \<notin> set (cur @ [c])" using False Cons.prems(1) by auto
    ultimately show ?thesis by (rule Cons.IH[rotated])
  qed
qed

lemma set_join: "set (join d ps) \<subseteq> \<Union> (set ` set ps) \<union> {d}"
  by (induction d ps rule: join.induct) auto

lemma join_split_dot: "join (CHR ''.'') (str_split s ''.'') = s"
  unfolding str_split_def by (simp only: join_split append_Nil)

lemma str_split_dot_no_dot: "p \<in> set (str_split s ''.'') \<Longrightarrow> CHR ''.'' \<notin> set p"
  unfolding str_split_def by (rule split_pieces_no_sep[of _ "[]"]) simp_all

lemma sentences_of_Nil_iff:
  "sentences_of s = [] \<longleftrightarrow> list_all (\<lambda>c. c = CHR ''.'' \<or> isspace c) s"
proof
  assume a: "sentences_of s = []"
  have "c = CHR ''.'' \<or> isspace c" if c: "c \<in> set s" for c
  proof -
    from c have "c \<in> set (join (CHR ''.'') (str_split s ''.''))"
      by (simp only: join_split_dot)
    then have "c \<in> \<Union> (set ` set (str_split s ''.'')) \<union> {CHR ''.''}"
      using set_join by (rule rev_subsetD)
    then consider "c = CHR ''.''" | p where "p \<in> set (str_split s ''.'')" "c \<in> set p"
      by blast
    then show ?thesis
    proof cases
      case 1 then show ?thesis by (rule disjI1)
    next
      case 2
      from a 2(1) have "list_all isspace p"
        by (simp only: sentences_of_Nil_iff_pieces)
      with 2(2) have "isspace c" by (simp only: list_all_iff)
      then show ?thesis by (rule disjI2)
    qed
  qed
  then show "list_all (\<lambda>c. c = CHR ''.'' \<or> isspace c) s"
    by (simp only: list_all_iff) blast
next
  assume a: "list_all (\<lambda>c. c = CHR ''.'' \<or> isspace c) s"
  have "list_all isspace p" if p: "p \<in> set (str_split s ''.'')" for p
  proof -
    have nd: "CHR ''.'' \<notin> set p" using p by (rule str_split_dot_no_dot)
    have sub: "set p \<subseteq> set s" using p by (rule str_split_chars)
    have "isspace c" if "c \<in> set p" for c
    proof -
      from that sub have "c \<in> set s" by (rule subsetD[rotated])
      with a have "c = CHR ''.'' \<or> isspace c" by (simp only: list_all_iff)
      moreover from that nd have "c \<noteq> CHR ''.''" by blast
      ultimately show ?thesis by blast
    qed
    then show ?thesis by (simp only: list_all_iff) blast
  qed
  then show "sentences_of s = []" by (simp only: sentences_of_Nil_iff_pieces) blast
qed

section \<open>The longest sentence\<close>

lemma max_from_first:
  "\<exists>pre post. best # xs = pre @ max_from f best xs # post
     \<and> (\<forall>y\<in>set pre. f y < f (max_from f best xs))
     \<and> (\<forall>y\<in>set post. f y \<le> f (max_from f best xs))"
proof (induction xs arbitrary: best)
  case Nil
  show ?case by (intro exI[of _ "[]"]) simp
next
  case (Cons x xs)
  show ?case
  proof (cases "f best < f x")
    case True
    from Cons.IH[of x] obtain pre post where
      e: "x # xs = pre @ max_from f x xs # post"
      and l: "\<forall>y\<in>set pre. f y < f (max_from f x xs)"
      and r: "\<forall>y\<in>set post. f y \<le> f (max_from f x xs)" by blast
    have "f x \<le> f (max_from f x xs)"
    proof (cases pre)
      case Nil
      with e have "x = max_from f x xs" by (metis append_Nil list.sel(1))
      then have "f x = f (max_from f x xs)" by (rule arg_cong)
      then show ?thesis by linarith
    next
      case (Cons a pre') then show ?thesis using e l by auto
    qed
    then have "f best < f (max_from f x xs)" using True by simp
    then have "best # x # xs = (best # pre) @ max_from f x xs # post
      \<and> (\<forall>y\<in>set (best # pre). f y < f (max_from f x xs))
      \<and> (\<forall>y\<in>set post. f y \<le> f (max_from f x xs))"
      using e l r by simp
    then show ?thesis using True by (simp only: max_from.simps if_True) blast
  next
    case False
    from Cons.IH[of best] obtain pre post where
      e: "best # xs = pre @ max_from f best xs # post"
      and l: "\<forall>y\<in>set pre. f y < f (max_from f best xs)"
      and r: "\<forall>y\<in>set post. f y \<le> f (max_from f best xs)" by blast
    have "\<exists>pre' post'. best # x # xs = pre' @ max_from f best xs # post'
      \<and> (\<forall>y\<in>set pre'. f y < f (max_from f best xs))
      \<and> (\<forall>y\<in>set post'. f y \<le> f (max_from f best xs))"
    proof (cases pre)
      case Nil
      then have "best # x # xs = [] @ max_from f best xs # (x # xs)"
        and "\<forall>y\<in>set (x # xs). f y \<le> f (max_from f best xs)"
        using e r False by auto
      then show ?thesis by (metis empty_iff list.set(1))
    next
      case (Cons a pre')
      then have "best # x # xs = (best # x # pre') @ max_from f best xs # post"
        and "\<forall>y\<in>set (best # x # pre'). f y < f (max_from f best xs)"
        using e l False by auto
      then show ?thesis using r by blast
    qed
    then show ?thesis using False by (simp only: max_from.simps if_False)
  qed
qed

section \<open>The frequency table and its ranking\<close>

lemma set_first_occurrences: "set (first_occurrences xs) = set xs"
  by (simp add: first_occurrences_def)

lemma distinct_first_occurrences: "distinct (first_occurrences xs)"
  by (simp add: first_occurrences_def)

lemma first_occurrences_snoc:
  "first_occurrences (xs @ [x]) =
     (if x \<in> set xs then first_occurrences xs else first_occurrences xs @ [x])"
  by (simp add: first_occurrences_def)

lemma length_first_occurrences: "length (first_occurrences xs) = card (set xs)"
  unfolding first_occurrences_def by (simp add: length_remdups_card_conv)

lemma count_words_snoc:
  "count_words d (ws @ [w]) =
     dict_set (count_words d ws) (lower w) (dict_get (count_words d ws) (lower w) 0 + 1)"
  by (induction ws arbitrary: d) (simp_all add: Let_def)

lemma dict_get_map: "dict_get (map (\<lambda>k. (k, g k)) ks) w dflt = (if w \<in> set ks then g w else dflt)"
  by (induction ks) auto

lemma dict_set_map_present:
  "distinct ks \<Longrightarrow> w \<in> set ks \<Longrightarrow>
     dict_set (map (\<lambda>k. (k, g k)) ks) w v = map (\<lambda>k. (k, if k = w then v else g k)) ks"
proof (induction ks)
  case Nil
  then show ?case by simp
next
  case (Cons k ks)
  show ?case
  proof (cases "k = w")
    case True
    then have "w \<notin> set ks" using Cons.prems(1) by simp
    then have "map (\<lambda>k. (k, if k = w then v else g k)) ks = map (\<lambda>k. (k, g k)) ks"
      by (intro map_cong) auto
    then show ?thesis using True by simp
  next
    case False
    then show ?thesis using Cons by simp
  qed
qed

lemma dict_set_map_absent:
  "w \<notin> set ks \<Longrightarrow> dict_set (map (\<lambda>k. (k, g k)) ks) w v = map (\<lambda>k. (k, g k)) ks @ [(w, v)]"
  by (induction ks) auto

lemma count_list_present: "x \<in> set xs \<Longrightarrow> 0 < count_list xs x"
  by (induction xs) auto

lemma frequency_table_snoc_present:
  assumes "x \<in> set L"
  shows "frequency_table (L @ [x]) =
    map (\<lambda>k. (k, if k = x then int (count_list L x) + 1 else int (count_list L k)))
      (first_occurrences L)"
  unfolding frequency_table_def using assms
  by (simp add: first_occurrences_snoc)

lemma frequency_table_snoc_absent:
  assumes "x \<notin> set L"
  shows "frequency_table (L @ [x]) = frequency_table L @ [(x, 0 + 1)]"
proof -
  have "map (\<lambda>w. (w, int (count_list (L @ [x]) w))) (first_occurrences L)
      = map (\<lambda>w. (w, int (count_list L w))) (first_occurrences L)"
    using assms by (intro map_cong) (auto simp: set_first_occurrences)
  then show ?thesis
    unfolding frequency_table_def using assms
    by (simp add: first_occurrences_snoc)
qed

lemma count_words_frequency_table: "count_words [] ws = frequency_table (map lower ws)"
proof (induction ws rule: rev_induct)
  case Nil
  show ?case by (simp add: frequency_table_def first_occurrences_def)
next
  case (snoc w ws)
  define L where "L = map lower ws"
  have T: "count_words [] ws = map (\<lambda>k. (k, int (count_list L k))) (first_occurrences L)"
    using snoc by (simp add: L_def frequency_table_def)
  show ?case
  proof (cases "lower w \<in> set L")
    case True
    then have "lower w \<in> set (first_occurrences L)" by (simp add: set_first_occurrences)
    then have "count_words [] (ws @ [w]) =
      map (\<lambda>k. (k, if k = lower w then int (count_list L (lower w)) + 1 else int (count_list L k)))
        (first_occurrences L)"
      unfolding count_words_snoc T
      by (simp add: dict_get_map dict_set_map_present[OF distinct_first_occurrences])
    also have "\<dots> = frequency_table (L @ [lower w])"
      using True by (simp only: frequency_table_snoc_present)
    finally show ?thesis by (simp add: L_def)
  next
    case False
    then have n: "lower w \<notin> set (first_occurrences L)" by (simp add: set_first_occurrences)
    then have "count_words [] (ws @ [w]) =
      map (\<lambda>k. (k, int (count_list L k))) (first_occurrences L) @ [(lower w, 0 + 1)]"
      unfolding count_words_snoc T
      by (simp add: dict_get_map dict_set_map_absent)
    also have "\<dots> = frequency_table (L @ [lower w])"
      by (simp only: frequency_table_snoc_absent[OF False] frequency_table_def[of L])
    finally show ?thesis by (simp add: L_def)
  qed
qed

lemma mset_sorted_reverse: "mset (sorted_reverse f xs) = mset xs"
  by (simp add: sorted_reverse_def)

lemma set_sorted_reverse: "set (sorted_reverse f xs) = set xs"
  by (simp add: sorted_reverse_def)

lemma length_sorted_reverse: "length (sorted_reverse f xs) = length xs"
  by (simp add: sorted_reverse_def)

lemma sorted_reverse_descending: "sorted_wrt (\<lambda>p q. f q \<le> f p) (sorted_reverse f xs)"
proof -
  have "sorted (map (\<lambda>x. - f x) (sort_key (\<lambda>x. - f x) xs))" by (rule sorted_sort_key)
  then show ?thesis by (simp add: sorted_reverse_def sorted_map)
qed

lemma sorted_reverse_stable:
  "filter (\<lambda>p. f p = k) (sorted_reverse f xs) = filter (\<lambda>p. f p = k) xs"
proof -
  have "filter (\<lambda>y. - f y = - k) (sort_key (\<lambda>x. - f x) xs) = filter (\<lambda>y. - f y = - k) xs"
    by (rule sort_key_stable)
  then show ?thesis by (simp add: sorted_reverse_def)
qed

lemma sum_list_frequency_table: "sum_list (map snd (frequency_table L)) = int (length L)"
proof -
  have "sum_list (map snd (frequency_table L))
      = sum_list (map (\<lambda>k. int (count_list L k)) (first_occurrences L))"
    by (simp add: frequency_table_def comp_def)
  also have "\<dots> = (\<Sum>k\<in>set (first_occurrences L). int (count_list L k))"
    using distinct_first_occurrences by (rule sum_list_distinct_conv_sum_set)
  also have "\<dots> = int (\<Sum>k\<in>set L. count_list L k)"
    by (simp add: set_first_occurrences)
  also have "\<dots> = int (length L)"
    by (simp add: sum_count_set)
  finally show ?thesis .
qed

lemma sum_list_take_le:
  fixes xs :: "int list"
  assumes "\<forall>x\<in>set xs. 0 \<le> x"
  shows "sum_list (take n xs) \<le> sum_list xs"
proof -
  have "sum_list xs = sum_list (take n xs) + sum_list (drop n xs)"
    by (metis append_take_drop_id sum_list_append)
  moreover have "0 \<le> sum_list (drop n xs)"
    using assms by (intro sum_list_nonneg) (auto dest: in_set_dropD)
  ultimately show ?thesis by linarith
qed

lemma frequency_table_counts: "p \<in> set (frequency_table L) \<Longrightarrow> 1 \<le> snd p"
  using count_list_present[of _ L]
  by (fastforce simp: frequency_table_def set_first_occurrences)

lemma frequency_table_keys: "fst ` set (frequency_table L) = set L"
  by (force simp: frequency_table_def set_first_occurrences)

lemma length_frequency_table: "length (frequency_table L) = card (set L)"
  by (simp add: frequency_table_def length_first_occurrences)

section \<open>The descriptor bands\<close>

lemma reading_ease_labels_distinct: "distinct reading_ease_labels \<and> length reading_ease_labels = 7"
  by (simp add: reading_ease_labels_def)

lemma grade_labels_distinct: "distinct grade_labels \<and> length grade_labels = 6"
  by (simp add: grade_labels_def)

lemma reading_ease_band:
  "get_reading_ease_descriptor x =
     reading_ease_labels !
       (if 90 \<le> x then 0 else if 80 \<le> x then 1 else if 70 \<le> x then 2 else if 60 \<le> x then 3
        else if 50 \<le> x then 4 else if 30 \<le> x then 5 else 6)"
  by (simp add: get_reading_ease_descriptor_def reading_ease_labels_def)

lemma grade_band:
  "get_readability_descriptor g =
     grade_labels !
       (if g \<le> 5 then 0 else if g \<le> 8 then 1 else if g \<le> 10 then 2 else if g \<le> 12 then 3
        else if g \<le> 15 then 4 else 5)"
  by (simp add: get_readability_descriptor_def grade_labels_def)

lemma nth_eq_distinct:
  "distinct xs \<Longrightarrow> i < length xs \<Longrightarrow> j < length xs \<Longrightarrow> xs ! i = xs ! j \<longleftrightarrow> i = j"
  by (simp add: nth_eq_iff_index_eq)

lemma reading_ease_iff:
  "(get_reading_ease_descriptor x = reading_ease_labels ! 0 \<longleftrightarrow> 90 \<le> x)
   \<and> (get_reading_ease_descriptor x = reading_ease_labels ! 1 \<longleftrightarrow> 80 \<le> x \<and> x < 90)
   \<and> (get_reading_ease_descriptor x = reading_ease_labels ! 2 \<longleftrightarrow> 70 \<le> x \<and> x < 80)
   \<and> (get_reading_ease_descriptor x = reading_ease_labels ! 3 \<longleftrightarrow> 60 \<le> x \<and> x < 70)
   \<and> (get_reading_ease_descriptor x = reading_ease_labels ! 4 \<longleftrightarrow> 50 \<le> x \<and> x < 60)
   \<and> (get_reading_ease_descriptor x = reading_ease_labels ! 5 \<longleftrightarrow> 30 \<le> x \<and> x < 50)
   \<and> (get_reading_ease_descriptor x = reading_ease_labels ! 6 \<longleftrightarrow> x < 30)"
  unfolding reading_ease_band
  using reading_ease_labels_distinct
  by (simp add: nth_eq_distinct)

lemma grade_iff:
  "(get_readability_descriptor g = grade_labels ! 0 \<longleftrightarrow> g \<le> 5)
   \<and> (get_readability_descriptor g = grade_labels ! 1 \<longleftrightarrow> 5 < g \<and> g \<le> 8)
   \<and> (get_readability_descriptor g = grade_labels ! 2 \<longleftrightarrow> 8 < g \<and> g \<le> 10)
   \<and> (get_readability_descriptor g = grade_labels ! 3 \<longleftrightarrow> 10 < g \<and> g \<le> 12)
   \<and> (get_readability_descriptor g = grade_labels ! 4 \<longleftrightarrow> 12 < g \<and> g \<le> 15)
   \<and> (get_readability_descriptor g = grade_labels ! 5 \<longleftrightarrow> 15 < g)"
  unfolding grade_band
  using grade_labels_distinct
  by (simp add: nth_eq_distinct)

lemma reading_ease_in_labels: "get_reading_ease_descriptor x \<in> set reading_ease_labels"
  unfolding reading_ease_band using reading_ease_labels_distinct by simp

lemma grade_in_labels: "get_readability_descriptor g \<in> set grade_labels"
  unfolding grade_band using grade_labels_distinct by simp



lemma descriptor_examples:
  "get_reading_ease_descriptor 90 = reading_ease_labels ! 0"
  "get_reading_ease_descriptor 89.9 = reading_ease_labels ! 1"
  "get_readability_descriptor 5 = grade_labels ! 0"
  "get_readability_descriptor 5.1 = grade_labels ! 1"
  unfolding reading_ease_band grade_band by simp_all

text \<open>
  Claim C1. For every real score, \<open>get_reading_ease_descriptor\<close> returns one of the seven
  reading-ease labels, which are pairwise different, and which one is decided by the
  inclusive lower bounds 90, 80, 70, 60, 50 and 30 taken in descending order (below 30 it
  is the last, "Very Difficult" label); \<open>get_readability_descriptor\<close> returns one of the six
  grade labels, pairwise different, decided by the inclusive upper bounds 5, 8, 10, 12 and
  15 (above 15 it is the last label). In particular 90 gets the "Very Easy" and 89.9 the
  "Easy" reading-ease label, 5 gets the "Very Easy" and 5.1 the "Easy" grade label.
\<close>

theorem descriptor_bands:
  "get_reading_ease_descriptor x \<in> set reading_ease_labels
   \<and> distinct reading_ease_labels \<and> length reading_ease_labels = 7
   \<and> (get_reading_ease_descriptor x = reading_ease_labels ! 0 \<longleftrightarrow> 90 \<le> x)
   \<and> (get_reading_ease_descriptor x = reading_ease_labels ! 1 \<longleftrightarrow> 80 \<le> x \<and> x < 90)
   \<and> (get_reading_ease_descriptor x = reading_ease_labels ! 2 \<longleftrightarrow> 70 \<le> x \<and> x < 80)
   \<and> (get_reading_ease_descriptor x = reading_ease_labels ! 3 \<longleftrightarrow> 60 \<le> x \<and> x < 70)
   \<and> (get_reading_ease_descriptor x = reading_ease_labels ! 4 \<longleftrightarrow> 50 \<le> x \<and> x < 60)
   \<and> (get_reading_ease_descriptor x = reading_ease_labels ! 5 \<longleftrightarrow> 30 \<le> x \<and> x < 50)
   \<and> (get_reading_ease_descriptor x = reading_ease_labels ! 6 \<longleftrightarrow> x < 30)
   \<and> get_readability_descriptor g \<in> set grade_labels
   \<and> distinct grade_labels \<and> length grade_labels = 6
   \<and> (get_readability_descriptor g = grade_labels ! 0 \<longleftrightarrow> g \<le> 5)
   \<and> (get_readability_descriptor g = grade_labels ! 1 \<longleftrightarrow> 5 < g \<and> g \<le> 8)
   \<and> (get_readability_descriptor g = grade_labels ! 2 \<longleftrightarrow> 8 < g \<and> g \<le> 10)
   \<and> (get_readability_descriptor g = grade_labels ! 3 \<longleftrightarrow> 10 < g \<and> g \<le> 12)
   \<and> (get_readability_descriptor g = grade_labels ! 4 \<longleftrightarrow> 12 < g \<and> g \<le> 15)
   \<and> (get_readability_descriptor g = grade_labels ! 5 \<longleftrightarrow> 15 < g)
   \<and> get_reading_ease_descriptor 90 = reading_ease_labels ! 0
   \<and> get_reading_ease_descriptor 89.9 = reading_ease_labels ! 1
   \<and> get_readability_descriptor 5 = grade_labels ! 0
   \<and> get_readability_descriptor 5.1 = grade_labels ! 1"
proof -
  note r = reading_ease_iff[of x]
  note q = grade_iff[of g]
  have ex: "get_reading_ease_descriptor 90 = reading_ease_labels ! 0
     \<and> get_reading_ease_descriptor 89.9 = reading_ease_labels ! 1
     \<and> get_readability_descriptor 5 = grade_labels ! 0
     \<and> get_readability_descriptor 5.1 = grade_labels ! 1"
    by (intro conjI descriptor_examples)
  have G: "get_readability_descriptor g \<in> set grade_labels
     \<and> distinct grade_labels \<and> length grade_labels = 6"
    by (intro conjI grade_in_labels grade_labels_distinct[THEN conjunct1]
          grade_labels_distinct[THEN conjunct2])
  have R: "get_reading_ease_descriptor x \<in> set reading_ease_labels
     \<and> distinct reading_ease_labels \<and> length reading_ease_labels = 7"
    by (intro conjI reading_ease_in_labels reading_ease_labels_distinct[THEN conjunct1]
          reading_ease_labels_distinct[THEN conjunct2])
  from R r G q ex show ?thesis by (simp only: conj_assoc) 
qed

section \<open>The record returned for every input\<close>

lemma isspace_not_isalpha: "isspace c \<Longrightarrow> \<not> isalpha c"
  by (auto simp: isspace_def isalpha_def Let_def)

lemma letter_count_spaces:
  "list_all isspace s \<Longrightarrow> sum_list (map (\<lambda>c. if isalpha c then 1 else 0) s) = (0::int)"
  by (induction s) (simp_all add: isspace_not_isalpha)

lemma sentences_of_spaces: "list_all isspace s \<Longrightarrow> sentences_of s = []"
  unfolding sentences_of_Nil_iff list_all_iff by blast

lemma ratio_zero: "ratio 0 b = 0"
  by (simp add: ratio_def)

lemma ratio_self: "ratio 1 1 = 1"
  by (simp add: ratio_def)

lemma whitespace_metrics:
  assumes "list_all isspace s"
  shows "calculate_text_metrics lib s = Inr \<lparr>
        letterCount = 0,
        sentenceCount = 1,
        wordCount = 0,
        uniqueWordCount = 0,
        totalSyllables = int (syllable_count lib s),
        avgSyllablesPerWord = 0,
        wordsThreeSyllables = 0,
        percWordsThreeSyllables = 0,
        longestSentence = [],
        paragraphCount = 1,
        avgSpeakingTime = 0,
        avgReadingTime = 0,
        avgWritingTime = 0,
        avgWordsPerSentence = 0,
        avgWordsPerParagraph = 0,
        avgSentencesPerParagraph = 1,
        avgCharactersPerWord = 0,
        wordsMoreThan4Syllables = 0,
        percWordsMoreThan4Syllables = 0,
        wordsMoreThan12Letters = 0,
        percWordsMoreThan12Letters = 0,
        topWords = [],
        fleschKincaid = flesch_kincaid_grade lib s,
        readabilityDescriptor = get_readability_descriptor (flesch_kincaid_grade lib s),
        readingEase = flesch_reading_ease lib s,
        readingEaseDescriptor = get_reading_ease_descriptor (flesch_reading_ease lib s),
        readingTime = 0,
        averageWordLength = 0 \<rparr>"
  unfolding calculate_text_metrics_eq Let_def
  by (simp add: words_of_spaces[OF assms] sentences_of_spaces[OF assms]
        paragraphs_of_spaces[OF assms] letter_count_spaces[OF assms]
        ratio_zero ratio_self py_round_zero py_round_one[unfolded One_nat_def]
        sorted_reverse_def)




lemma percentages_bounds:
  "\<exists>m. calculate_text_metrics lib s = Inr m
     \<and> 0 \<le> percWordsThreeSyllables m \<and> percWordsThreeSyllables m \<le> 100
     \<and> 0 \<le> percWordsMoreThan4Syllables m \<and> percWordsMoreThan4Syllables m \<le> 100
     \<and> 0 \<le> percWordsMoreThan12Letters m \<and> percWordsMoreThan12Letters m \<le> 100"
  unfolding calculate_text_metrics_eq Let_def
  by (simp add: perc_bounds sum_ones_filter)



text \<open>
  Claim C9. For every input, each of the three percentage fields
  (\<open>percWordsThreeSyllables\<close>, \<open>percWordsMoreThan4Syllables\<close>,
  \<open>percWordsMoreThan12Letters\<close>) lies between 0 and 100, both included.
\<close>

theorem percentages_in_range:
  "\<exists>m. calculate_text_metrics lib s = Inr m
     \<and> 0 \<le> percWordsThreeSyllables m \<and> percWordsThreeSyllables m \<le> 100
     \<and> 0 \<le> percWordsMoreThan4Syllables m \<and> percWordsMoreThan4Syllables m \<le> 100
     \<and> 0 \<le> percWordsMoreThan12Letters m \<and> percWordsMoreThan12Letters m \<le> 100"
  by (rule percentages_bounds)

text \<open>
  Claim C2, as amended. For the empty string the function returns a record with
  \<open>wordCount\<close> 0, \<open>sentenceCount\<close> 1 and \<open>paragraphCount\<close> 1, in which every per-word,
  per-sentence and per-paragraph average and every percentage is 0, except
  \<open>avgSentencesPerParagraph\<close>, which is 1: the one sentence and the one paragraph that the
  two counts default to are divided by each other. No division by zero is performed.
\<close>

theorem empty_text_metrics:
  "\<exists>m. calculate_text_metrics lib '''' = Inr m
     \<and> wordCount m = 0 \<and> sentenceCount m = 1 \<and> paragraphCount m = 1
     \<and> avgSyllablesPerWord m = 0 \<and> avgCharactersPerWord m = 0 \<and> averageWordLength m = 0
     \<and> avgWordsPerSentence m = 0
     \<and> avgWordsPerParagraph m = 0 \<and> avgSentencesPerParagraph m = 1
     \<and> percWordsThreeSyllables m = 0 \<and> percWordsMoreThan4Syllables m = 0
     \<and> percWordsMoreThan12Letters m = 0"
  by (simp add: whitespace_metrics)

text \<open>
  Claim C2 as stated fails: for the empty string \<open>avgSentencesPerParagraph\<close> is 1, not 0.
\<close>

theorem empty_text_counterexample:
  "map_sum id avgSentencesPerParagraph (calculate_text_metrics sample_textstat '''') = Inr 1
   \<and> map_sum id avgSentencesPerParagraph (calculate_text_metrics sample_textstat '''') \<noteq> Inr 0"
  by (simp add: whitespace_metrics)




section \<open>The worked example\<close>

lemma example_words:
  "words_of ''The cat sat. The dog ran.'' = [''The'', ''cat'', ''sat.'', ''The'', ''dog'', ''ran.'']"
  by code_simp

lemma example_sentences:
  "sentences_of ''The cat sat. The dog ran.'' = [''The cat sat'', ''The dog ran'']"
  by code_simp

lemma example_letters:
  "sum_list (map (\<lambda>c. if isalpha c then 1 else 0) ''The cat sat. The dog ran.'') = (18::int)"
  by code_simp

lemma example_unique:
  "card (set (map lower [''The'', ''cat'', ''sat.'', ''The'', ''dog'', ''ran.''])) = 5"
  by code_simp

lemma example_tokens:
  "length (split_ws ''The cat sat'') = 3" "length (split_ws ''The dog ran'') = 3"
  by code_simp+

text \<open>
  Claim C4, as amended. For the input \<open>The cat sat. The dog ran.\<close> the function returns
  \<open>wordCount\<close> 6, \<open>sentenceCount\<close> 2, \<open>letterCount\<close> 18, \<open>uniqueWordCount\<close> 5 (\<open>the\<close>
  counted once) and \<open>longestSentence\<close> \<open>The cat sat\<close>, the first of the two sentences of
  three words each.
\<close>

theorem worked_example:
  "\<exists>m. calculate_text_metrics lib ''The cat sat. The dog ran.'' = Inr m
     \<and> wordCount m = 6 \<and> sentenceCount m = 2 \<and> letterCount m = 18
     \<and> uniqueWordCount m = 5 \<and> longestSentence m = ''The cat sat''
     \<and> sentences_of ''The cat sat. The dog ran.'' = [''The cat sat'', ''The dog ran'']
     \<and> map (\<lambda>s. length (split_ws s)) (sentences_of ''The cat sat. The dog ran.'') = [3, 3]"
  unfolding calculate_text_metrics_eq Let_def example_words example_sentences example_letters
    example_unique
  by (simp add: example_tokens)

text \<open>
  Claim C4 as stated fails: the input has 18 letters (nine in each sentence), so
  \<open>letterCount\<close> is 18, not 17.
\<close>

theorem worked_example_counterexample:
  "map_sum id letterCount (calculate_text_metrics sample_textstat ''The cat sat. The dog ran.'')
     = Inr 18
   \<and> map_sum id letterCount (calculate_text_metrics sample_textstat ''The cat sat. The dog ran.'')
     \<noteq> Inr 17"
  unfolding calculate_text_metrics_eq Let_def example_letters
  by simp

section \<open>The top words\<close>

lemma top_words_eq:
  "\<exists>m. calculate_text_metrics lib s = Inr m
     \<and> topWords m = take 5 (sorted_reverse snd (frequency_table (map lower (words_of s))))
     \<and> uniqueWordCount m = int (card (set (map lower (words_of s))))
     \<and> wordCount m = int (length (words_of s))"
  unfolding calculate_text_metrics_eq Let_def
  by (simp add: count_words_frequency_table)

lemma example_ranking:
  "take 5 (sorted_reverse snd (frequency_table (map lower (words_of ''a a b b c c d d e e f''))))
   = [(''a'', 2), (''b'', 2), (''c'', 2), (''d'', 2), (''e'', 2)]"
  by code_simp

text \<open>
  Claim C5. For every input, \<open>topWords\<close> is the first five entries of a ranking of the
  frequency table of the case-folded words: the ranking has the entries of the table,
  each as often as the table has it, its counts never increase along the list, and the
  entries of any one count stand in the ranking in the order they have in the table, which
  is the order of the words' first occurrence in the text. For the input
  \<open>a a b b c c d d e e f\<close>, \<open>topWords\<close> is \<open>a, b, c, d, e\<close> in this order, each with
  count 2, and \<open>f\<close> (count 1) is left out.
\<close>

theorem top_words_ranking:
  "\<exists>m ranking. calculate_text_metrics lib s = Inr m
     \<and> topWords m = take 5 ranking
     \<and> mset ranking = mset (frequency_table (map lower (words_of s)))
     \<and> sorted_wrt (\<lambda>p q. snd q \<le> snd p) ranking
     \<and> (\<forall>k. filter (\<lambda>p. snd p = k) ranking
              = filter (\<lambda>p. snd p = k) (frequency_table (map lower (words_of s))))
     \<and> (\<exists>m'. calculate_text_metrics lib ''a a b b c c d d e e f'' = Inr m'
           \<and> topWords m' = [(''a'', 2), (''b'', 2), (''c'', 2), (''d'', 2), (''e'', 2)])"
proof -
  define T where "T = frequency_table (map lower (words_of s))"
  from top_words_eq[of lib s] obtain m where m: "calculate_text_metrics lib s = Inr m"
    and t: "topWords m = take 5 (sorted_reverse snd T)"
    unfolding T_def by blast
  have 1: "mset (sorted_reverse snd T) = mset T" by (rule mset_sorted_reverse)
  have 2: "sorted_wrt (\<lambda>p q. snd q \<le> snd p) (sorted_reverse snd T)"
    by (rule sorted_reverse_descending)
  have 3: "\<forall>k. filter (\<lambda>p. snd p = k) (sorted_reverse snd T) = filter (\<lambda>p. snd p = k) T"
    by (simp add: sorted_reverse_stable)
  from top_words_eq[of lib "''a a b b c c d d e e f''"]
  have 4: "\<exists>m'. calculate_text_metrics lib ''a a b b c c d d e e f'' = Inr m'
      \<and> topWords m' = [(''a'', 2), (''b'', 2), (''c'', 2), (''d'', 2), (''e'', 2)]"
    unfolding example_ranking by blast
  from m t 1 2 3 4 show ?thesis unfolding T_def by blast
qed

lemma sum_list_map_mset_cong:
  fixes f :: "'a \<Rightarrow> int"
  assumes "mset xs = mset ys" shows "sum_list (map f xs) = sum_list (map f ys)"
proof -
  have "sum_list (map f xs) = sum_mset (image_mset f (mset xs))"
    by (metis mset_map sum_mset_sum_list)
  also have "\<dots> = sum_mset (image_mset f (mset ys))" by (simp only: assms)
  also have "\<dots> = sum_list (map f ys)" by (metis mset_map sum_mset_sum_list)
  finally show ?thesis .
qed

text \<open>
  Claim C10. For every input, \<open>topWords\<close> has \<open>min(5, uniqueWordCount)\<close> entries, every
  count in it is at least 1, the counts never increase along the list, every listed word
  is the lower-case form of a word of the input, and the listed counts add up to at most
  \<open>wordCount\<close>.
\<close>

theorem top_words_invariants:
  "\<exists>m. calculate_text_metrics lib s = Inr m
     \<and> int (length (topWords m)) = min 5 (uniqueWordCount m)
     \<and> list_all (\<lambda>p. 1 \<le> snd p) (topWords m)
     \<and> sorted_wrt (\<lambda>p q. snd q \<le> snd p) (topWords m)
     \<and> fst ` set (topWords m) \<subseteq> lower ` set (words_of s)
     \<and> sum_list (map snd (topWords m)) \<le> wordCount m"
proof -
  define L where "L = map lower (words_of s)"
  define R where "R = sorted_reverse snd (frequency_table L)"
  from top_words_eq[of lib s] obtain m where m: "calculate_text_metrics lib s = Inr m"
    and t: "topWords m = take 5 R"
    and u: "uniqueWordCount m = int (card (set L))"
    and w: "wordCount m = int (length (words_of s))"
    unfolding R_def L_def by blast
  have setR: "set R = set (frequency_table L)" unfolding R_def by (rule set_sorted_reverse)
  have "length R = card (set L)"
    unfolding R_def by (simp add: length_sorted_reverse length_frequency_table)
  then have 1: "int (length (topWords m)) = min 5 (uniqueWordCount m)"
    unfolding t u by simp
  have ge: "1 \<le> snd p" if "p \<in> set R" for p
    using that setR frequency_table_counts by blast
  then have 2: "list_all (\<lambda>p. 1 \<le> snd p) (topWords m)"
    unfolding t list_all_iff by (blast dest: in_set_takeD)
  have "sorted_wrt (\<lambda>p q. snd q \<le> snd p) R"
    unfolding R_def by (rule sorted_reverse_descending)
  then have 3: "sorted_wrt (\<lambda>p q. snd q \<le> snd p) (topWords m)"
    unfolding t by (rule sorted_wrt_take)
  have "fst ` set R = set L" unfolding setR by (rule frequency_table_keys)
  moreover have "set (take 5 R) \<subseteq> set R" by (rule set_take_subset)
  ultimately have "fst ` set (topWords m) \<subseteq> set L" unfolding t by blast
  then have 4: "fst ` set (topWords m) \<subseteq> lower ` set (words_of s)"
    unfolding L_def by simp
  have "\<forall>x\<in>set (map snd R). 0 \<le> x" using ge by fastforce
  then have "sum_list (take 5 (map snd R)) \<le> sum_list (map snd R)"
    by (rule sum_list_take_le)
  also have "\<dots> = sum_list (map snd (frequency_table L))"
    by (rule sum_list_map_mset_cong) (simp add: R_def mset_sorted_reverse)
  also have "\<dots> = int (length L)" by (rule sum_list_frequency_table)
  finally have 5: "sum_list (map snd (topWords m)) \<le> wordCount m"
    unfolding t w L_def by (simp add: take_map)
  from m 1 2 3 4 5 show ?thesis by blast
qed

section \<open>Sentences\<close>

lemma sentences_of_trim_discard:
  "sentences_of s = filter (\<lambda>p. p \<noteq> []) (map strip (str_split s ''.''))"
  unfolding sentences_of_def by (simp add: filter_map comp_def)

lemma str_split_dot_pieces: "list_all (\<lambda>p. CHR ''.'' \<notin> set p) (str_split s ''.'')"
  unfolding list_all_iff using str_split_dot_no_dot by blast

lemma sentence_fields:
  "\<exists>m. calculate_text_metrics lib s = Inr m
     \<and> sentenceCount m = (if sentences_of s = [] then 1 else int (length (sentences_of s)))
     \<and> longestSentence m =
          (if sentences_of s = [] then []
           else max_from (\<lambda>p. int (length (split_ws p))) (hd (sentences_of s)) (tl (sentences_of s)))"
  unfolding calculate_text_metrics_eq Let_def by simp

lemma longest_first:
  assumes "xs \<noteq> []"
  shows "\<exists>pre post. xs = pre @ max_from (\<lambda>p. int (length (split_ws p))) (hd xs) (tl xs) # post
     \<and> list_all (\<lambda>p. length (split_ws p)
          < length (split_ws (max_from (\<lambda>p. int (length (split_ws p))) (hd xs) (tl xs)))) pre
     \<and> list_all (\<lambda>p. length (split_ws p)
          \<le> length (split_ws (max_from (\<lambda>p. int (length (split_ws p))) (hd xs) (tl xs)))) post"
proof -
  from assms have xs: "hd xs # tl xs = xs" by simp
  from max_from_first[of "hd xs" "tl xs" "\<lambda>p. int (length (split_ws p))"]
  show ?thesis unfolding xs list_all_iff by simp
qed

text \<open>
  Claim C6, as amended. For every input, the pieces of the text split at \<open>.\<close> contain no
  \<open>.\<close> and give the text back when joined with \<open>.\<close>; the sentence list is these pieces,
  each trimmed, the empty ones discarded; \<open>sentenceCount\<close> is the length of the list, or 1
  when the list is empty; \<open>longestSentence\<close> is the empty string when the list is empty and
  otherwise the first sentence with the largest number of whitespace-delimited tokens
  (every sentence before it has fewer tokens, every sentence after it has no more). The
  list is empty exactly when every character of the text is a \<open>.\<close> or whitespace; a text
  without \<open>.\<close> that has any other character is one sentence itself.
\<close>

theorem sentences_and_longest:
  "\<exists>m. calculate_text_metrics lib s = Inr m
     \<and> join (CHR ''.'') (str_split s ''.'') = s
     \<and> list_all (\<lambda>p. CHR ''.'' \<notin> set p) (str_split s ''.'')
     \<and> sentences_of s = filter (\<lambda>p. p \<noteq> []) (map strip (str_split s ''.''))
     \<and> sentenceCount m = (if sentences_of s = [] then 1 else int (length (sentences_of s)))
     \<and> (if sentences_of s = [] then longestSentence m = []
         else \<exists>pre post. sentences_of s = pre @ longestSentence m # post
           \<and> list_all (\<lambda>p. length (split_ws p) < length (split_ws (longestSentence m))) pre
           \<and> list_all (\<lambda>p. length (split_ws p) \<le> length (split_ws (longestSentence m))) post)
     \<and> (sentences_of s = [] \<longleftrightarrow> list_all (\<lambda>c. c = CHR ''.'' \<or> isspace c) s)"
proof -
  from sentence_fields[of lib s] obtain m where m: "calculate_text_metrics lib s = Inr m"
    and c: "sentenceCount m = (if sentences_of s = [] then 1 else int (length (sentences_of s)))"
    and l: "longestSentence m =
          (if sentences_of s = [] then []
           else max_from (\<lambda>p. int (length (split_ws p))) (hd (sentences_of s)) (tl (sentences_of s)))"
    by blast
  have 5: "if sentences_of s = [] then longestSentence m = []
         else \<exists>pre post. sentences_of s = pre @ longestSentence m # post
           \<and> list_all (\<lambda>p. length (split_ws p) < length (split_ws (longestSentence m))) pre
           \<and> list_all (\<lambda>p. length (split_ws p) \<le> length (split_ws (longestSentence m))) post"
  proof (cases "sentences_of s = []")
    case True
    then show ?thesis using l by simp
  next
    case False
    then have "longestSentence m =
        max_from (\<lambda>p. int (length (split_ws p))) (hd (sentences_of s)) (tl (sentences_of s))"
      using l by simp
    with longest_first[OF False] show ?thesis using False by simp
  qed
  from m join_split_dot[of s] str_split_dot_pieces[of s] sentences_of_trim_discard[of s] c 5
    sentences_of_Nil_iff[of s]
  show ?thesis by (intro exI[of _ m] conjI)
qed

lemma hello_sentences: "sentences_of ''hello'' = [''hello'']"
  by code_simp

text \<open>
  Claim C6 as stated gives a non-empty text without \<open>.\<close> as an example of an empty
  sentence list. It is none: \<open>hello\<close> is its own single sentence, and \<open>longestSentence\<close>
  is \<open>hello\<close>, not the empty string.
\<close>

theorem no_period_counterexample:
  "''hello'' \<noteq> [] \<and> CHR ''.'' \<notin> set ''hello''
   \<and> sentences_of ''hello'' = [''hello'']
   \<and> map_sum id sentenceCount (calculate_text_metrics sample_textstat ''hello'') = Inr 1
   \<and> map_sum id longestSentence (calculate_text_metrics sample_textstat ''hello'') = Inr ''hello''"
  unfolding calculate_text_metrics_eq Let_def hello_sentences
  by simp

section \<open>The syllable total\<close>

text \<open>
  \<open>total_syllables\<close> is one call of the library's \<open>syllable_count\<close> on the whole text.
  How it relates to the counts of the single words is a property of the library.
\<close>

lemma total_syllables_eq:
  "\<exists>m. calculate_text_metrics lib s = Inr m \<and> totalSyllables m = int (syllable_count lib s)"
  unfolding calculate_text_metrics_eq Let_def by simp

end
